theory Spec2Isabelle
  imports Main "HOL-Library.AList"
begin

section \<open>Python values that a resolved constant can be\<close>

text \<open>
  A class object is its name together with its direct base classes. \<open>issubclass\<close>
  is the nominal test of the language: the class itself, or a class reached through the
  bases.
\<close>

datatype pyclass = PyClass string "pyclass list"

fun issubclass :: "pyclass \<Rightarrow> pyclass \<Rightarrow> bool" where
  "issubclass (PyClass n bs) d = (PyClass n bs = d \<or> list_ex (\<lambda>b. issubclass b d) bs)"

definition object_class :: pyclass where
  "object_class = PyClass ''object'' []"

definition BaseException_class :: pyclass where
  "BaseException_class = PyClass ''BaseException'' [object_class]"

definition Exception_class :: pyclass where
  "Exception_class = PyClass ''Exception'' [BaseException_class]"

definition ValueError_class :: pyclass where
  "ValueError_class = PyClass ''ValueError'' [Exception_class]"

definition KeyboardInterrupt_class :: pyclass where
  "KeyboardInterrupt_class = PyClass ''KeyboardInterrupt'' [BaseException_class]"


text \<open>
  The constants of the source language: \<open>PyType\<close> is a class object (an instance of
  \<open>type\<close>), \<open>PyInstance\<close> an instance of a class with its constructor arguments.
\<close>

datatype pyval =
    PyNone
  | PyInt int
  | PyStr string
  | PyType pyclass
  | PyTuple "pyval list"
  | PyList "pyval list"
  | PyInstance pyclass "pyval list"

type_synonym var = string

datatype error =
    NotImplementedError pyval
  | IndexError
  | TypeError
  | ValueError
  | AttributeError
  | ConstantInferenceError var

text \<open>\<open>const[i]\<close> on a tuple, for an index that is not negative.\<close>

definition getitem :: "pyval list \<Rightarrow> nat \<Rightarrow> error + pyval" where
  "getitem xs i = (if i < length xs then Inr (xs ! i) else Inl IndexError)"

text \<open>The builtin \<open>tuple(x)\<close>: the elements of an iterable, in order.\<close>

definition py_tuple :: "pyval \<Rightarrow> error + pyval list" where
  "py_tuple x =
     (case x of
        PyTuple xs \<Rightarrow> Inr xs
      | PyList xs \<Rightarrow> Inr xs
      | PyStr s \<Rightarrow> Inr (map (\<lambda>c. PyStr [c]) s)
      | _ \<Rightarrow> Inl TypeError)"

section \<open>The classifier of constant exceptions\<close>

text \<open>\<open>isinstance(const, type) and issubclass(const, Exception)\<close>\<close>

definition is_exception_type :: "pyval \<Rightarrow> bool" where
  "is_exception_type const =
     (case const of PyType c \<Rightarrow> issubclass c Exception_class | _ \<Rightarrow> False)"

definition is_tuple :: "pyval \<Rightarrow> bool" where
  "is_tuple const = (case const of PyTuple _ \<Rightarrow> True | _ \<Rightarrow> False)"

text \<open>
  \<open>_break_constant\<close>. In the tuple branch \<open>const[0]\<close> is read first, then tested, then
  \<open>const[1]\<close> is read and handed to \<open>tuple\<close>; each of the three can raise.
\<close>

definition break_constant :: "pyval \<Rightarrow> error + (pyval \<times> pyval)" where
  "break_constant const =
     (case const of
        PyTuple xs \<Rightarrow>
          (case getitem xs 0 of
             Inl e \<Rightarrow> Inl e
           | Inr c0 \<Rightarrow>
               if \<not> is_exception_type c0 then Inl (NotImplementedError c0)
               else (case getitem xs 1 of
                       Inl e \<Rightarrow> Inl e
                     | Inr c1 \<Rightarrow>
                         (case py_tuple c1 of
                            Inl e \<Rightarrow> Inl e
                          | Inr args \<Rightarrow> Inr (c0, PyTuple args))))
      | _ \<Rightarrow>
          if is_exception_type const then Inr (const, PyNone)
          else Inl (NotImplementedError const))"

section \<open>Instructions, blocks and the store\<close>

text \<open>
  Objects live in a store and are named by references. A block holds references to its
  instructions, so "the same instruction object" is "the same reference". Creating an
  object takes the next free reference.
\<close>

type_synonym ref = nat

datatype loc = Loc string nat

text \<open>
  Modelled from the spec: the instruction classes of the IR (module \<open>ir\<close>) are not part
  of the source file. A raise-like instruction is an unconditional raise or a
  try-protected raise, each with an optional exception operand and a source location;
  the static counterparts carry the exception type, the arguments and the location.
  \<open>Other\<close> stands for every other statement class (assignments, deletions, jumps).
\<close>

datatype inst =
    Raise "var option" loc
  | TryRaise "var option" loc
  | StaticRaise pyval pyval loc
  | StaticTryRaise pyval pyval loc
  | Other string loc

fun inst_loc :: "inst \<Rightarrow> loc" where
  "inst_loc (Raise exc l) = l"
| "inst_loc (TryRaise exc l) = l"
| "inst_loc (StaticRaise t a l) = l"
| "inst_loc (StaticTryRaise t a l) = l"
| "inst_loc (Other s l) = l"

text \<open>\<open>inst.exception\<close>: only the two raise-like classes have the attribute.\<close>

fun inst_exception :: "inst \<Rightarrow> error + var option" where
  "inst_exception (Raise exc l) = Inr exc"
| "inst_exception (TryRaise exc l) = Inr exc"
| "inst_exception _ = Inl AttributeError"

text \<open>\<open>isinstance(inst, (ir.Raise, ir.TryRaise))\<close>\<close>

fun is_raise_like :: "inst \<Rightarrow> bool" where
  "is_raise_like (Raise exc l) = True"
| "is_raise_like (TryRaise exc l) = True"
| "is_raise_like _ = False"

record block =
  block_scope :: string
  block_loc :: loc
  body :: "ref list"

text \<open>
  The state: the store of instruction objects and of block objects, the next free
  reference, and the attributes of the rewrite object (\<open>self.raises\<close>,
  \<open>self.tryraises\<close>, \<open>self.block\<close>). The two dictionaries are association lists in
  insertion order, keyed by the reference of the instruction; \<open>self.block\<close> is \<open>None\<close>
  as long as \<open>match\<close> has not set it.
\<close>

record state =
  insts :: "ref \<Rightarrow> inst"
  blocks :: "ref \<Rightarrow> block"
  next_ref :: ref
  self_raises :: "(ref \<times> (pyval \<times> pyval)) list"
  self_tryraises :: "(ref \<times> (pyval \<times> pyval)) list"
  self_block :: "ref option"

text \<open>
  Modelled from the spec: the methods of the block class (module \<open>ir\<close>) are not part of
  the source file. \<open>find_insts\<close> yields the instructions of the given classes in block
  order; \<open>copy\<close> makes a new block object of the same kind with its own instruction
  sequence; \<open>clear\<close> empties the sequence of a block; \<open>append\<close> adds at its end.
\<close>

definition find_insts :: "state \<Rightarrow> ref \<Rightarrow> ref list" where
  "find_insts st b = filter (\<lambda>r. is_raise_like (insts st r)) (body (blocks st b))"

definition Block_copy :: "ref \<Rightarrow> state \<Rightarrow> ref \<times> state" where
  "Block_copy b st =
     (next_ref st,
      st\<lparr>blocks := (blocks st)(next_ref st := blocks st b), next_ref := next_ref st + 1\<rparr>)"

definition Block_clear :: "ref \<Rightarrow> state \<Rightarrow> state" where
  "Block_clear b st = st\<lparr>blocks := (blocks st)(b := (blocks st b)\<lparr>body := []\<rparr>)\<rparr>"

definition Block_append :: "ref \<Rightarrow> ref \<Rightarrow> state \<Rightarrow> state" where
  "Block_append b r st =
     st\<lparr>blocks := (blocks st)(b := (blocks st b)\<lparr>body := body (blocks st b) @ [r]\<rparr>)\<rparr>"

text \<open>Constructing an instruction object: it is stored under the next free reference.\<close>

definition new_inst :: "inst \<Rightarrow> state \<Rightarrow> ref \<times> state" where
  "new_inst i st =
     (next_ref st, st\<lparr>insts := (insts st)(next_ref st := i), next_ref := next_ref st + 1\<rparr>)"

section \<open>The rewrite: match and apply\<close>

text \<open>
  The constant-inference oracle \<open>func_ir.infer_constant\<close> is a parameter: it resolves an
  operand to a constant or fails. The arguments \<open>typemap\<close> and \<open>calltypes\<close> of \<open>match\<close>
  are not used by it and are left out.
\<close>

type_synonym const_oracle = "var \<Rightarrow> error + pyval"

text \<open>
  One iteration of the loop of \<open>match\<close>: first the pair \<open>exc_type, exc_args\<close> (a
  re-raise has no operand and gives \<open>None, None\<close>; otherwise the operand is resolved and
  the constant broken down), then the entry in the dictionary of the instruction's
  class. An error leaves the dictionaries as they were before the iteration.
\<close>

definition infer_exc :: "const_oracle \<Rightarrow> var option \<Rightarrow> error + (pyval \<times> pyval)" where
  "infer_exc infer exception =
     (case exception of
        None \<Rightarrow> Inr (PyNone, PyNone)
      | Some v \<Rightarrow>
          (case infer v of
             Inl e \<Rightarrow> Inl e
           | Inr const \<Rightarrow> break_constant const))"

definition match_step :: "const_oracle \<Rightarrow> ref \<Rightarrow> state \<Rightarrow> error + state" where
  "match_step infer r st =
     (case inst_exception (insts st r) of
        Inl e \<Rightarrow> Inl e
      | Inr exception \<Rightarrow>
          (case infer_exc infer exception of
             Inl e \<Rightarrow> Inl e
           | Inr exc \<Rightarrow>
               (case insts st r of
                  Raise _ _ \<Rightarrow> Inr (st\<lparr>self_raises := AList.update r exc (self_raises st)\<rparr>)
                | TryRaise _ _ \<Rightarrow>
                    Inr (st\<lparr>self_tryraises := AList.update r exc (self_tryraises st)\<rparr>)
                | _ \<Rightarrow> Inl ValueError)))"

fun match_loop :: "const_oracle \<Rightarrow> ref list \<Rightarrow> state \<Rightarrow> (error + unit) \<times> state" where
  "match_loop infer [] st = (Inr (), st)"
| "match_loop infer (r # rs) st =
     (case match_step infer r st of
        Inl e \<Rightarrow> (Inl e, st)
      | Inr st' \<Rightarrow> match_loop infer rs st')"

text \<open>
  \<open>match\<close> returns the state also when it fails: the three attributes are set before
  the scan and the dictionaries hold what was recorded up to the failure.
\<close>

definition match :: "const_oracle \<Rightarrow> ref \<Rightarrow> state \<Rightarrow> (error + bool) \<times> state" where
  "match infer b st =
     (let st1 = st\<lparr>self_raises := [], self_tryraises := [], self_block := Some b\<rparr> in
      case match_loop infer (find_insts st1 b) st1 of
        (Inl e, st2) \<Rightarrow> (Inl e, st2)
      | (Inr _, st2) \<Rightarrow>
          (Inr (length (self_raises st2) + length (self_tryraises st2) > 0), st2))"

text \<open>
  One iteration of the loop of \<open>apply\<close>; \<open>nb\<close> is the new block and \<open>r\<close> the
  instruction of the original block.
\<close>

definition apply_step :: "ref \<Rightarrow> ref \<Rightarrow> state \<Rightarrow> state" where
  "apply_step nb r st =
     (case map_of (self_raises st) r of
        Some (exc_type, exc_args) \<Rightarrow>
          (let (n, st1) = new_inst (StaticRaise exc_type exc_args (inst_loc (insts st r))) st
           in Block_append nb n st1)
      | None \<Rightarrow>
          (case map_of (self_tryraises st) r of
             Some (exc_type, exc_args) \<Rightarrow>
               (let (n, st1) =
                      new_inst (StaticTryRaise exc_type exc_args (inst_loc (insts st r))) st
                in Block_append nb n st1)
           | None \<Rightarrow> Block_append nb r st))"

fun apply_loop :: "ref list \<Rightarrow> ref \<Rightarrow> state \<Rightarrow> state" where
  "apply_loop [] nb st = st"
| "apply_loop (r # rs) nb st = apply_loop rs nb (apply_step nb r st)"

text \<open>
  \<open>apply\<close>. The loop runs over the body of the original block as it is when the loop
  starts, after the copy has been made and emptied. Without a preceding \<open>match\<close> the
  attribute \<open>self.block\<close> does not exist.
\<close>

definition apply_rewrite :: "state \<Rightarrow> error + (ref \<times> state)" where
  "apply_rewrite st =
     (case self_block st of
        None \<Rightarrow> Inl AttributeError
      | Some b \<Rightarrow>
          (let (nb, st1) = Block_copy b st;
               st2 = Block_clear nb st1
           in Inr (nb, apply_loop (body (blocks st2 b)) nb st2)))"

text \<open>
  The exception-type test as the specification words it: a type, not an instance, that
  is a subtype of the base exception type of the language, which is \<open>BaseException\<close>.
\<close>

definition spec_is_exception_type :: "pyval \<Rightarrow> bool" where
  "spec_is_exception_type const =
     (case const of PyType c \<Rightarrow> issubclass c BaseException_class | _ \<Rightarrow> False)"


section \<open>Notions used in the statements\<close>

text \<open>
  \<open>in_raises\<close> and \<open>in_tryraises\<close> are the tests \<open>inst in self.raises\<close> and
  \<open>inst in self.tryraises\<close>; an instruction is unmatched when it is a key of neither
  dictionary.
\<close>

definition in_raises :: "state \<Rightarrow> ref \<Rightarrow> bool" where
  "in_raises st r = (map_of (self_raises st) r \<noteq> None)"

definition in_tryraises :: "state \<Rightarrow> ref \<Rightarrow> bool" where
  "in_tryraises st r = (map_of (self_tryraises st) r \<noteq> None)"

definition unmatched :: "state \<Rightarrow> ref \<Rightarrow> bool" where
  "unmatched st r = (\<not> in_raises st r \<and> \<not> in_tryraises st r)"

text \<open>
  What a successful scan records for an instruction: the pair of an unconditional raise
  goes to \<open>self.raises\<close>, the pair of a try-protected raise to \<open>self.tryraises\<close>.
\<close>

definition raise_entry :: "const_oracle \<Rightarrow> inst \<Rightarrow> (pyval \<times> pyval) option" where
  "raise_entry infer i =
     (case i of
        Raise exc l \<Rightarrow> (case infer_exc infer exc of Inl e \<Rightarrow> None | Inr p \<Rightarrow> Some p)
      | _ \<Rightarrow> None)"

definition tryraise_entry :: "const_oracle \<Rightarrow> inst \<Rightarrow> (pyval \<times> pyval) option" where
  "tryraise_entry infer i =
     (case i of
        TryRaise exc l \<Rightarrow> (case infer_exc infer exc of Inl e \<Rightarrow> None | Inr p \<Rightarrow> Some p)
      | _ \<Rightarrow> None)"

text \<open>
  \<open>emitted st st' r n\<close>: in the state \<open>st'\<close> reached from \<open>st\<close>, the reference \<open>n\<close> is
  what \<open>apply\<close> puts in the new block for the instruction \<open>r\<close>: a static instruction
  created after \<open>st\<close>, or \<open>r\<close> itself.
\<close>

definition emitted :: "state \<Rightarrow> state \<Rightarrow> ref \<Rightarrow> ref \<Rightarrow> bool" where
  "emitted st st' r n =
     (case map_of (self_raises st) r of
        Some (t, a) \<Rightarrow>
          next_ref st \<le> n \<and> n < next_ref st'
          \<and> insts st' n = StaticRaise t a (inst_loc (insts st r))
      | None \<Rightarrow>
          (case map_of (self_tryraises st) r of
             Some (t, a) \<Rightarrow>
               next_ref st \<le> n \<and> n < next_ref st'
               \<and> insts st' n = StaticTryRaise t a (inst_loc (insts st r))
           | None \<Rightarrow> n = r))"

text \<open>
  \<open>extends nb st st'\<close>: from \<open>st\<close> to \<open>st'\<close> the attributes of the rewrite are kept,
  objects were only added, no instruction that existed in \<open>st\<close> was changed and no
  block other than \<open>nb\<close> was changed.
\<close>

definition extends :: "ref \<Rightarrow> state \<Rightarrow> state \<Rightarrow> bool" where
  "extends nb st st' =
     (self_raises st' = self_raises st \<and> self_tryraises st' = self_tryraises st
      \<and> self_block st' = self_block st
      \<and> next_ref st \<le> next_ref st'
      \<and> (\<forall>r. r < next_ref st \<longrightarrow> insts st' r = insts st r)
      \<and> (\<forall>b. b \<noteq> nb \<longrightarrow> blocks st' b = blocks st b))"

section \<open>A function with three blocks, as a running example\<close>

text \<open>
  Block 5 is \<open>x = ValueError('bad'); <re-raise inside a try>; raise x\<close>, block 6 is a
  bare \<open>raise\<close>, block 7 is \<open>y = 1\<close>. The oracle \<open>ex_infer\<close> resolves \<open>x\<close> to the
  pair of the class and its arguments and nothing else; \<open>ex_fail\<close> resolves nothing.
\<close>

definition ex_infer :: const_oracle where
  "ex_infer v =
     (if v = ''x'' then Inr (PyTuple [PyType ValueError_class, PyList [PyStr ''bad'']])
      else Inl (ConstantInferenceError v))"

definition ex_fail :: const_oracle where
  "ex_fail v = Inl (ConstantInferenceError v)"

definition ex_state :: state where
  "ex_state =
     \<lparr>insts = (\<lambda>_. Other ''nop'' (Loc ''f.py'' 0))
         (0 := Other ''x = call ValueError(bad)'' (Loc ''f.py'' 1),
          1 := TryRaise None (Loc ''f.py'' 2),
          2 := Raise (Some ''x'') (Loc ''f.py'' 3),
          3 := Raise None (Loc ''f.py'' 9),
          4 := Other ''y = 1'' (Loc ''f.py'' 12)),
      blocks = (\<lambda>_. \<lparr>block_scope = ''s'', block_loc = Loc ''f.py'' 0, body = []\<rparr>)
         (5 := \<lparr>block_scope = ''s'', block_loc = Loc ''f.py'' 1, body = [0, 1, 2]\<rparr>,
          6 := \<lparr>block_scope = ''s'', block_loc = Loc ''f.py'' 9, body = [3]\<rparr>,
          7 := \<lparr>block_scope = ''s'', block_loc = Loc ''f.py'' 12, body = [4]\<rparr>),
      next_ref = 8, self_raises = [], self_tryraises = [], self_block = None\<rparr>"

text \<open>The states after \<open>match\<close> and after \<open>apply\<close> on block 5, and on block 6.\<close>

definition ex_matched :: state where
  "ex_matched =
     ex_state\<lparr>self_raises := [(2, PyType ValueError_class, PyTuple [PyStr ''bad''])],
              self_tryraises := [(1, PyNone, PyNone)],
              self_block := Some 5\<rparr>"

definition ex_applied :: state where
  "ex_applied =
     ex_matched\<lparr>insts := (insts ex_state)
                  (9 := StaticTryRaise PyNone PyNone (Loc ''f.py'' 2),
                   10 := StaticRaise (PyType ValueError_class) (PyTuple [PyStr ''bad''])
                           (Loc ''f.py'' 3)),
                blocks := (blocks ex_state)
                  (8 := \<lparr>block_scope = ''s'', block_loc = Loc ''f.py'' 1, body = [0, 9, 10]\<rparr>),
                next_ref := 11\<rparr>"

definition ex_matched6 :: state where
  "ex_matched6 =
     ex_state\<lparr>self_raises := [(3, PyNone, PyNone)], self_tryraises := [],
              self_block := Some 6\<rparr>"

definition ex_applied6 :: state where
  "ex_applied6 =
     ex_matched6\<lparr>insts := (insts ex_state)
                   (9 := StaticRaise PyNone PyNone (Loc ''f.py'' 9)),
                 blocks := (blocks ex_state)
                   (8 := \<lparr>block_scope = ''s'', block_loc = Loc ''f.py'' 9, body = [9]\<rparr>),
                 next_ref := 10\<rparr>"

section \<open>The classifier: theorems\<close>

lemma issubclass_refl: "issubclass c c"
  by (cases c) simp

lemma ValueError_is_exception: "is_exception_type (PyType ValueError_class)"
  by (simp add: is_exception_type_def ValueError_class_def Exception_class_def)







text \<open>
  C5, as stated, fails: \<open>KeyboardInterrupt\<close> is a type and a subtype of the base
  exception type \<open>BaseException\<close>, it is not a tuple, and the classifier rejects it,
  because the code tests against \<open>Exception\<close>.
\<close>

theorem break_constant_KeyboardInterrupt_counterexample:
  "\<not> is_tuple (PyType KeyboardInterrupt_class)
   \<and> spec_is_exception_type (PyType KeyboardInterrupt_class)
   \<and> break_constant (PyType KeyboardInterrupt_class)
       = Inl (NotImplementedError (PyType KeyboardInterrupt_class))"
  by (simp add: is_tuple_def spec_is_exception_type_def break_constant_def
      is_exception_type_def KeyboardInterrupt_class_def BaseException_class_def
      Exception_class_def object_class_def)

text \<open>
  C5, amended: for a constant that is not a tuple, the classifier succeeds, and then with
  the constant itself and no arguments, exactly when the constant is a class object
  whose class is a subclass of \<open>Exception\<close>. The test is by class and base classes
  only: an instance of an exception class is not accepted.
\<close>

theorem break_constant_bare_type:
  assumes "\<not> is_tuple c"
  shows "((break_constant c = Inr (c, PyNone))
            = (\<exists>cls. c = PyType cls \<and> issubclass cls Exception_class))
       \<and> ((\<exists>r. break_constant c = Inr r)
            = (\<exists>cls. c = PyType cls \<and> issubclass cls Exception_class))"
  using assms
  by (cases c) (simp_all add: break_constant_def is_tuple_def is_exception_type_def)

theorem break_constant_bare_type_witness:
  "\<not> is_tuple (PyType ValueError_class)
   \<and> break_constant (PyType ValueError_class) = Inr (PyType ValueError_class, PyNone)
   \<and> \<not> is_tuple (PyInstance ValueError_class [])
   \<and> break_constant (PyInstance ValueError_class []) \<noteq> Inr (PyInstance ValueError_class [], PyNone)"
  using break_constant_bare_type [of "PyType ValueError_class"]
    break_constant_bare_type [of "PyInstance ValueError_class []"]
    ValueError_is_exception
  by (simp add: is_tuple_def is_exception_type_def)

text \<open>
  C9: on the empty tuple the classifier neither succeeds nor raises the "unsupported
  exception constant" error: reading element 0 is out of range, and the failure is the
  index error of that read.
\<close>

theorem break_constant_empty_tuple:
  "break_constant (PyTuple []) = Inl IndexError"
  by (simp add: break_constant_def getitem_def)

section \<open>The scan: what it keeps and what it records\<close>

lemma match_step_frame:
  assumes "match_step infer r st = Inr st'"
  shows "insts st' = insts st \<and> blocks st' = blocks st \<and> next_ref st' = next_ref st
         \<and> self_block st' = self_block st"
  using assms
  by (auto simp: match_step_def split: sum.splits inst.splits)

lemma match_loop_frame:
  "insts (snd (match_loop infer rs st)) = insts st
   \<and> blocks (snd (match_loop infer rs st)) = blocks st
   \<and> next_ref (snd (match_loop infer rs st)) = next_ref st
   \<and> self_block (snd (match_loop infer rs st)) = self_block st"
proof (induction rs arbitrary: st)
  case Nil
  show ?case by simp
next
  case (Cons r rs)
  show ?case
  proof (cases "match_step infer r st")
    case (Inl e)
    then show ?thesis by simp
  next
    case (Inr st')
    with Cons [of st'] match_step_frame [OF Inr] show ?thesis by simp
  qed
qed

lemma match_frame:
  "insts (snd (match infer b st)) = insts st
   \<and> blocks (snd (match infer b st)) = blocks st
   \<and> next_ref (snd (match infer b st)) = next_ref st
   \<and> self_block (snd (match infer b st)) = Some b"
proof -
  define st1 where "st1 = st\<lparr>self_raises := [], self_tryraises := [], self_block := Some b\<rparr>"
  obtain res st2 where loop: "match_loop infer (find_insts st1 b) st1 = (res, st2)"
    by (cases "match_loop infer (find_insts st1 b) st1")
  have "snd (match infer b st) = st2"
    using loop by (cases res) (simp_all add: match_def st1_def)
  moreover have "st2 = snd (match_loop infer (find_insts st1 b) st1)"
    using loop by simp
  ultimately show ?thesis
    using match_loop_frame [of infer "find_insts st1 b" st1] by (simp add: st1_def)
qed


lemma match_step_entries:
  assumes "match_step infer r st = Inr st'"
  shows "map_of (self_raises st') =
           (\<lambda>k. if k = r \<and> raise_entry infer (insts st r) \<noteq> None
                then raise_entry infer (insts st r) else map_of (self_raises st) k)"
    and "map_of (self_tryraises st') =
           (\<lambda>k. if k = r \<and> tryraise_entry infer (insts st r) \<noteq> None
                then tryraise_entry infer (insts st r) else map_of (self_tryraises st) k)"
    and "raise_entry infer (insts st r) \<noteq> None \<or> tryraise_entry infer (insts st r) \<noteq> None"
  using assms
  by (auto simp: match_step_def raise_entry_def tryraise_entry_def update_conv' fun_eq_iff
      split: sum.splits inst.splits)

lemma match_loop_entries:
  assumes "match_loop infer rs st = (Inr u, st')"
  shows "map_of (self_raises st') k =
           (if k \<in> set rs \<and> raise_entry infer (insts st k) \<noteq> None
            then raise_entry infer (insts st k) else map_of (self_raises st) k)
         \<and> map_of (self_tryraises st') k =
           (if k \<in> set rs \<and> tryraise_entry infer (insts st k) \<noteq> None
            then tryraise_entry infer (insts st k) else map_of (self_tryraises st) k)
         \<and> (k \<in> set rs \<longrightarrow> raise_entry infer (insts st k) \<noteq> None
                              \<or> tryraise_entry infer (insts st k) \<noteq> None)"
  using assms
proof (induction rs arbitrary: st)
  case Nil
  then show ?case by simp
next
  case (Cons r rs)
  from Cons.prems obtain st1 where step: "match_step infer r st = Inr st1"
    and rest: "match_loop infer rs st1 = (Inr u, st')"
    by (auto split: sum.splits)
  have fr: "insts st1 = insts st" using match_step_frame [OF step] by simp
  note ih = Cons.IH [OF rest, unfolded fr]
  note e = match_step_entries [OF step]
  show ?case
    using ih e(3) by (auto simp: e(1) e(2))
qed


section \<open>The rebuilt block\<close>

lemma extends_refl: "extends nb st st"
  by (simp add: extends_def)

lemma extends_trans: "extends nb st st1 \<Longrightarrow> extends nb st1 st2 \<Longrightarrow> extends nb st st2"
  by (auto simp: extends_def)

lemma apply_step_spec:
  "extends nb st (apply_step nb r st)
   \<and> (\<exists>n. body (blocks (apply_step nb r st) nb) = body (blocks st nb) @ [n]
          \<and> emitted st (apply_step nb r st) r n)"
  by (auto simp: extends_def emitted_def apply_step_def new_inst_def Block_append_def
      split: option.splits)

lemma emitted_mono:
  assumes "emitted st1 st2 r n" and "extends nb st st1" and "r < next_ref st"
  shows "emitted st st2 r n"
  using assms by (auto simp: emitted_def extends_def split: option.splits)

lemma emitted_later:
  assumes "emitted st st1 r n" and "extends nb st1 st2" and "r < next_ref st"
  shows "emitted st st2 r n"
  using assms by (auto simp: emitted_def extends_def split: option.splits)

lemma apply_loop_spec:
  assumes "\<forall>r\<in>set rs. r < next_ref st"
  shows "extends nb st (apply_loop rs nb st)
         \<and> (\<exists>out. body (blocks (apply_loop rs nb st) nb) = body (blocks st nb) @ out
                 \<and> list_all2 (emitted st (apply_loop rs nb st)) rs out)"
  using assms
proof (induction rs arbitrary: st)
  case Nil
  show ?case by (simp add: extends_refl)
next
  case (Cons r rs)
  define st1 where "st1 = apply_step nb r st"
  define st2 where "st2 = apply_loop rs nb st1"
  from apply_step_spec [of nb st r] obtain n
    where e1: "extends nb st st1"
      and b1: "body (blocks st1 nb) = body (blocks st nb) @ [n]"
      and m1: "emitted st st1 r n"
    by (auto simp: st1_def)
  have le: "next_ref st \<le> next_ref st1" using e1 by (simp add: extends_def)
  have "\<forall>r\<in>set rs. r < next_ref st1"
    using Cons.prems le by auto
  from Cons.IH [OF this, of ] obtain out
    where e2: "extends nb st1 st2"
      and b2: "body (blocks st2 nb) = body (blocks st1 nb) @ out"
      and m2: "list_all2 (emitted st1 st2) rs out"
    by (auto simp: st2_def)
  have "list_all2 (emitted st st2) rs out"
  proof (rule list.rel_mono_strong [OF m2])
    fix r' n' assume "r' \<in> set rs" and "emitted st1 st2 r' n'"
    then show "emitted st st2 r' n'"
      using Cons.prems e1 by (auto intro: emitted_mono)
  qed
  moreover have "emitted st st2 r n"
    using m1 e2 Cons.prems by (auto intro: emitted_later)
  ultimately have "list_all2 (emitted st st2) (r # rs) (n # out)" by simp
  moreover have "body (blocks st2 nb) = body (blocks st nb) @ (n # out)"
    using b1 b2 by simp
  moreover have "extends nb st st2" using e1 e2 by (rule extends_trans)
  ultimately show ?case
    unfolding st2_def st1_def by (simp only: apply_loop.simps) blast
qed

lemma apply_loop_extends: "extends nb st (apply_loop rs nb st)"
proof (induction rs arbitrary: st)
  case Nil
  show ?case by (simp add: extends_refl)
next
  case (Cons r rs)
  have "extends nb st (apply_step nb r st)"
    using apply_step_spec [of nb st r] by simp
  then show ?case
    using Cons [of "apply_step nb r st"] by (auto intro: extends_trans)
qed

lemma apply_loop_length:
  "length (body (blocks (apply_loop rs nb st) nb)) = length (body (blocks st nb)) + length rs"
proof (induction rs arbitrary: st)
  case Nil
  show ?case by simp
next
  case (Cons r rs)
  have "length (body (blocks (apply_step nb r st) nb)) = length (body (blocks st nb)) + 1"
    using apply_step_spec [of nb st r] by auto
  then show ?case
    using Cons [of "apply_step nb r st"] by simp
qed

lemma apply_rewrite_unfold:
  assumes "self_block st = Some b" and "b < next_ref st"
  shows "\<exists>st0. apply_rewrite st
                = Inr (next_ref st, apply_loop (body (blocks st b)) (next_ref st) st0)
              \<and> extends (next_ref st) st st0
              \<and> body (blocks st0 (next_ref st)) = []"
proof -
  define st0 where "st0 = Block_clear (next_ref st) (snd (Block_copy b st))"
  have "apply_rewrite st
          = Inr (next_ref st, apply_loop (body (blocks st b)) (next_ref st) st0)"
    using assms by (simp add: apply_rewrite_def st0_def Block_copy_def Block_clear_def)
  moreover have "extends (next_ref st) st st0"
    by (simp add: st0_def Block_copy_def Block_clear_def extends_def)
  moreover have "body (blocks st0 (next_ref st)) = []"
    by (simp add: st0_def Block_copy_def Block_clear_def)
  ultimately show ?thesis by blast
qed

lemma emitted_unmatched: "unmatched st r \<Longrightarrow> emitted st st' r n = (n = r)"
  by (auto simp: emitted_def unmatched_def in_raises_def in_tryraises_def split: option.splits)

lemma emitted_raises:
  "map_of (self_raises st) r = Some (t, a) \<Longrightarrow>
   emitted st st' r n =
     (next_ref st \<le> n \<and> n < next_ref st'
      \<and> insts st' n = StaticRaise t a (inst_loc (insts st r)))"
  by (simp add: emitted_def)

lemma emitted_tryraises:
  "map_of (self_raises st) r = None \<Longrightarrow> map_of (self_tryraises st) r = Some (t, a) \<Longrightarrow>
   emitted st st' r n =
     (next_ref st \<le> n \<and> n < next_ref st'
      \<and> insts st' n = StaticTryRaise t a (inst_loc (insts st r)))"
  by (simp add: emitted_def)

lemma emitted_unmatched_filter:
  assumes "list_all2 (emitted st st') rs out" and "\<forall>r\<in>set rs. r < next_ref st"
  shows "filter (\<lambda>n. n < next_ref st) out = filter (unmatched st) rs"
  using assms
proof (induction rs out rule: list_all2_induct)
  case Nil
  show ?case by simp
next
  case (Cons r n rs out)
  then show ?case
    by (auto simp: emitted_def unmatched_def in_raises_def in_tryraises_def
        split: option.splits)
qed

lemma apply_rewrite_spec:
  assumes "self_block st = Some b" and "b < next_ref st"
    and "apply_rewrite st = Inr (nb, st')"
  shows "nb = next_ref st \<and> extends nb st st'
         \<and> length (body (blocks st' nb)) = length (body (blocks st b))
         \<and> ((\<forall>r\<in>set (body (blocks st b)). r < next_ref st) \<longrightarrow>
              list_all2 (emitted st st') (body (blocks st b)) (body (blocks st' nb)))"
proof -
  from apply_rewrite_unfold [OF assms(1,2)] obtain st0
    where ap: "apply_rewrite st
                 = Inr (next_ref st, apply_loop (body (blocks st b)) (next_ref st) st0)"
      and e0: "extends (next_ref st) st st0"
      and b0: "body (blocks st0 (next_ref st)) = []"
    by blast
  from ap assms(3) have nb: "nb = next_ref st"
    and st': "st' = apply_loop (body (blocks st b)) nb st0" by simp_all
  have e1: "extends nb st0 st'" unfolding st' by (rule apply_loop_extends)
  have ext: "extends nb st st'" using e0 e1 unfolding nb by (rule extends_trans)
  have len: "length (body (blocks st' nb)) = length (body (blocks st b))"
    unfolding st' using apply_loop_length [of "body (blocks st b)" nb st0] b0 nb by simp
  have em: "list_all2 (emitted st st') (body (blocks st b)) (body (blocks st' nb))"
    if wf: "\<forall>r\<in>set (body (blocks st b)). r < next_ref st"
  proof -
    have le: "next_ref st \<le> next_ref st0" using e0 by (simp add: extends_def)
    have "\<forall>r\<in>set (body (blocks st b)). r < next_ref st0" using wf le by auto
    from apply_loop_spec [OF this, of nb] obtain out
      where bo: "body (blocks st' nb) = body (blocks st0 nb) @ out"
        and m: "list_all2 (emitted st0 st') (body (blocks st b)) out"
      unfolding st' by blast
    have "list_all2 (emitted st st') (body (blocks st b)) out"
    proof (rule list.rel_mono_strong [OF m])
      fix r n assume "r \<in> set (body (blocks st b))" and "emitted st0 st' r n"
      then show "emitted st st' r n"
        using wf e0 unfolding nb by (auto intro: emitted_mono)
    qed
    then show ?thesis using bo b0 nb by simp
  qed
  show ?thesis using nb ext len em by blast
qed

lemma emitted_out_range:
  assumes "list_all2 (emitted st st') rs out" and "\<forall>r\<in>set rs. r < bound"
    and "bound \<le> next_ref st"
  shows "\<forall>n\<in>set out. n < bound \<or> next_ref st \<le> n"
  using assms(1,2)
proof (induction rs out rule: list_all2_induct)
  case Nil
  show ?case by simp
next
  case (Cons r rs n out)
  have "n < bound \<or> next_ref st \<le> n"
  proof (cases "unmatched st r")
    case True
    then have "n = r" using Cons.hyps(1) by (simp add: emitted_unmatched)
    then show ?thesis using Cons.prems by simp
  next
    case False
    then show ?thesis using Cons.hyps(1)
      by (auto simp: emitted_def unmatched_def in_raises_def in_tryraises_def
          split: option.splits)
  qed
  then show ?case using Cons by simp
qed

lemma emitted_upper:
  assumes "emitted st st' r n" and "r < next_ref st" and "next_ref st \<le> next_ref st'"
  shows "n < next_ref st'"
  using assms by (auto simp: emitted_def split: option.splits)

lemma apply_loop_fresh_sorted:
  assumes "\<forall>r\<in>set rs. r < next_ref st"
  shows "\<exists>out. body (blocks (apply_loop rs nb st) nb) = body (blocks st nb) @ out
               \<and> sorted_wrt (<) (filter (\<lambda>n. next_ref st \<le> n) out)"
  using assms
proof (induction rs arbitrary: st)
  case Nil
  show ?case by simp
next
  case (Cons r rs)
  define st1 where "st1 = apply_step nb r st"
  define st2 where "st2 = apply_loop rs nb st1"
  from apply_step_spec [of nb st r] obtain n
    where e1: "extends nb st st1"
      and b1: "body (blocks st1 nb) = body (blocks st nb) @ [n]"
      and m1: "emitted st st1 r n"
    by (auto simp: st1_def)
  have le: "next_ref st \<le> next_ref st1" using e1 by (simp add: extends_def)
  have wf1: "\<forall>r\<in>set rs. r < next_ref st1" using Cons.prems le by auto
  from Cons.IH [OF wf1] obtain out
    where b2: "body (blocks st2 nb) = body (blocks st1 nb) @ out"
      and s2: "sorted_wrt (<) (filter (\<lambda>n. next_ref st1 \<le> n) out)"
    by (auto simp: st2_def)
  from apply_loop_spec [OF wf1, of nb] obtain out'
    where b2': "body (blocks st2 nb) = body (blocks st1 nb) @ out'"
      and m2: "list_all2 (emitted st1 st2) rs out'"
    by (auto simp: st2_def)
  have oo: "out' = out" using b2 b2' by simp
  have rng: "\<forall>n\<in>set out. n < next_ref st \<or> next_ref st1 \<le> n"
    using emitted_out_range [OF m2 [unfolded oo], of "next_ref st"] Cons.prems le by simp
  have feq: "filter (\<lambda>n. next_ref st \<le> n) out = filter (\<lambda>n. next_ref st1 \<le> n) out"
    using rng le by (intro filter_cong) auto
  have nlt: "n < next_ref st1" using emitted_upper [OF m1] Cons.prems le by simp
  have "sorted_wrt (<) (filter (\<lambda>n. next_ref st \<le> n) (n # out))"
    using s2 nlt by (auto simp: feq)
  moreover have "body (blocks st2 nb) = body (blocks st nb) @ (n # out)"
    using b1 b2 by simp
  ultimately show ?case
    unfolding st2_def st1_def by (simp only: apply_loop.simps) blast
qed

lemma apply_rewrite_fresh_distinct:
  assumes "self_block st = Some b" and "b < next_ref st"
    and "\<forall>r\<in>set (body (blocks st b)). r < next_ref st"
    and "apply_rewrite st = Inr (nb, st')"
  shows "distinct (filter (\<lambda>n. next_ref st \<le> n) (body (blocks st' nb)))"
proof -
  from apply_rewrite_unfold [OF assms(1,2)] obtain st0
    where ap: "apply_rewrite st
                 = Inr (next_ref st, apply_loop (body (blocks st b)) (next_ref st) st0)"
      and e0: "extends (next_ref st) st st0"
      and b0: "body (blocks st0 (next_ref st)) = []"
    by blast
  from ap assms(4) have nb: "nb = next_ref st"
    and st': "st' = apply_loop (body (blocks st b)) nb st0" by simp_all
  have le: "next_ref st \<le> next_ref st0" using e0 by (simp add: extends_def)
  have wf0: "\<forall>r\<in>set (body (blocks st b)). r < next_ref st0" using assms(3) le by auto
  from apply_loop_fresh_sorted [OF wf0, of nb] obtain out
    where bo: "body (blocks st' nb) = body (blocks st0 nb) @ out"
      and so: "sorted_wrt (<) (filter (\<lambda>n. next_ref st0 \<le> n) out)"
    unfolding st' by blast
  from apply_loop_spec [OF wf0, of nb] obtain out'
    where bo': "body (blocks st' nb) = body (blocks st0 nb) @ out'"
      and m: "list_all2 (emitted st0 st') (body (blocks st b)) out'"
    unfolding st' by blast
  have oo: "out' = out" using bo bo' by simp
  have rng: "\<forall>n\<in>set out. n < next_ref st \<or> next_ref st0 \<le> n"
    using emitted_out_range [OF m [unfolded oo] assms(3) le] .
  have feq: "filter (\<lambda>n. next_ref st \<le> n) out = filter (\<lambda>n. next_ref st0 \<le> n) out"
    using rng le by (intro filter_cong) auto
  have "distinct (filter (\<lambda>n. next_ref st \<le> n) out)"
    using so unfolding feq by (simp add: strict_sorted_iff)
  moreover have "body (blocks st' nb) = out" using bo b0 nb by simp
  ultimately show ?thesis by simp
qed

section \<open>The scan as a whole\<close>

lemma match_step_distinct:
  assumes "match_step infer r st = Inr st'"
    and "distinct (map fst (self_raises st))" and "distinct (map fst (self_tryraises st))"
  shows "distinct (map fst (self_raises st')) \<and> distinct (map fst (self_tryraises st'))"
  using assms
  by (auto simp: match_step_def distinct_update split: sum.splits inst.splits)

lemma match_loop_distinct:
  assumes "distinct (map fst (self_raises st))" and "distinct (map fst (self_tryraises st))"
  shows "distinct (map fst (self_raises (snd (match_loop infer rs st))))
         \<and> distinct (map fst (self_tryraises (snd (match_loop infer rs st))))"
  using assms
proof (induction rs arbitrary: st)
  case Nil
  then show ?case by simp
next
  case (Cons r rs)
  show ?case
  proof (cases "match_step infer r st")
    case (Inl e)
    then show ?thesis using Cons.prems by simp
  next
    case (Inr st')
    from match_step_distinct [OF Inr Cons.prems] Cons.IH [of st'] Inr
    show ?thesis by simp
  qed
qed

lemma match_unfold:
  assumes "match infer b st = (Inr ok, st1)"
  shows "match_loop infer (find_insts st b)
           (st\<lparr>self_raises := [], self_tryraises := [], self_block := Some b\<rparr>) = (Inr (), st1)
         \<and> ok = (0 < length (self_raises st1) + length (self_tryraises st1))"
proof -
  define st0 where "st0 = st\<lparr>self_raises := [], self_tryraises := [], self_block := Some b\<rparr>"
  have fi: "find_insts st0 b = find_insts st b" by (simp add: find_insts_def st0_def)
  obtain res st2 where loop: "match_loop infer (find_insts st b) st0 = (res, st2)"
    by (cases "match_loop infer (find_insts st b) st0")
  show ?thesis
    using assms loop fi
    by (cases res) (auto simp: match_def st0_def [symmetric])
qed

lemma raise_entry_Some:
  "(raise_entry infer i = Some p) = (\<exists>exc l. i = Raise exc l \<and> infer_exc infer exc = Inr p)"
  by (cases i) (auto simp: raise_entry_def split: sum.splits)

lemma tryraise_entry_Some:
  "(tryraise_entry infer i = Some p)
     = (\<exists>exc l. i = TryRaise exc l \<and> infer_exc infer exc = Inr p)"
  by (cases i) (auto simp: tryraise_entry_def split: sum.splits)

lemma match_entries:
  assumes "match infer b st = (Inr ok, st1)"
  shows "map_of (self_raises st1) k =
           (if k \<in> set (body (blocks st b)) then raise_entry infer (insts st k) else None)"
    and "map_of (self_tryraises st1) k =
           (if k \<in> set (body (blocks st b)) then tryraise_entry infer (insts st k) else None)"
    and "k \<in> set (body (blocks st b)) \<Longrightarrow> is_raise_like (insts st k) \<Longrightarrow>
           raise_entry infer (insts st k) \<noteq> None \<or> tryraise_entry infer (insts st k) \<noteq> None"
proof -
  define st0 where "st0 = st\<lparr>self_raises := [], self_tryraises := [], self_block := Some b\<rparr>"
  have loop: "match_loop infer (find_insts st b) st0 = (Inr (), st1)"
    using match_unfold [OF assms] by (simp add: st0_def)
  have i0: "insts st0 = insts st" "self_raises st0 = []" "self_tryraises st0 = []"
    by (simp_all add: st0_def)
  note e = match_loop_entries [OF loop, of k, unfolded i0]
  have mem: "(k \<in> set (find_insts st b))
               = (k \<in> set (body (blocks st b)) \<and> is_raise_like (insts st k))"
    by (simp add: find_insts_def)
  have e1: "map_of (self_raises st1) k =
              (if k \<in> set (find_insts st b) \<and> raise_entry infer (insts st k) \<noteq> None
               then raise_entry infer (insts st k) else None)"
    using e by auto
  have e2: "map_of (self_tryraises st1) k =
              (if k \<in> set (find_insts st b) \<and> tryraise_entry infer (insts st k) \<noteq> None
               then tryraise_entry infer (insts st k) else None)"
    using e by auto
  have e3: "k \<in> set (find_insts st b) \<longrightarrow>
              raise_entry infer (insts st k) \<noteq> None \<or> tryraise_entry infer (insts st k) \<noteq> None"
    using e by auto
  have rl: "is_raise_like (insts st k)" if "raise_entry infer (insts st k) \<noteq> None"
    using that by (cases "insts st k") (simp_all add: raise_entry_def)
  have tl: "is_raise_like (insts st k)" if "tryraise_entry infer (insts st k) \<noteq> None"
    using that by (cases "insts st k") (simp_all add: tryraise_entry_def)
  show "map_of (self_raises st1) k =
           (if k \<in> set (body (blocks st b)) then raise_entry infer (insts st k) else None)"
  proof (cases "raise_entry infer (insts st k)")
    case None
    then show ?thesis using e1 by simp
  next
    case (Some p)
    then have "is_raise_like (insts st k)" using rl by simp
    then show ?thesis using e1 mem Some by simp
  qed
  show "map_of (self_tryraises st1) k =
           (if k \<in> set (body (blocks st b)) then tryraise_entry infer (insts st k) else None)"
  proof (cases "tryraise_entry infer (insts st k)")
    case None
    then show ?thesis using e2 by simp
  next
    case (Some p)
    then have "is_raise_like (insts st k)" using tl by simp
    then show ?thesis using e2 mem Some by simp
  qed
  show "raise_entry infer (insts st k) \<noteq> None \<or> tryraise_entry infer (insts st k) \<noteq> None"
    if "k \<in> set (body (blocks st b))" and "is_raise_like (insts st k)"
    using e3 mem that by blast
qed

lemma card_dom_map_of:
  assumes "distinct (map fst al)"
  shows "card (dom (map_of al)) = length al"
proof -
  have "dom (map_of al) = set (map fst al)" by (simp add: dom_map_of_conv_image_fst)
  then show ?thesis using assms by (simp add: distinct_card del: set_map)
qed

lemma match_distinct:
  assumes "match infer b st = (Inr ok, st1)"
  shows "distinct (map fst (self_raises st1)) \<and> distinct (map fst (self_tryraises st1))"
  using match_unfold [OF assms]
    match_loop_distinct [of "st\<lparr>self_raises := [], self_tryraises := [], self_block := Some b\<rparr>"
      infer "find_insts st b"]
  by simp

lemma match_state:
  assumes "match infer b st = (Inr ok, st1)"
  shows "insts st1 = insts st \<and> blocks st1 = blocks st \<and> next_ref st1 = next_ref st
         \<and> self_block st1 = Some b"
  using match_frame [of infer b st] assms by simp

section \<open>The rewrite: theorems\<close>

text \<open>
  C3: \<open>apply\<close> puts every instruction that is a key of neither dictionary into the new
  block as the same object, at the position it had, and leaves the object as it was;
  the objects of the new block that existed before \<open>apply\<close> are exactly the unmatched
  instructions of the original block, in their original order.
\<close>

theorem apply_keeps_unmatched:
  assumes "self_block st = Some b" and "b < next_ref st"
    and "\<forall>r\<in>set (body (blocks st b)). r < next_ref st"
    and "apply_rewrite st = Inr (nb, st')"
  shows "(\<forall>k<length (body (blocks st b)).
            unmatched st (body (blocks st b) ! k) \<longrightarrow>
              body (blocks st' nb) ! k = body (blocks st b) ! k
              \<and> insts st' (body (blocks st b) ! k) = insts st (body (blocks st b) ! k))
         \<and> filter (\<lambda>n. n < next_ref st) (body (blocks st' nb))
             = filter (unmatched st) (body (blocks st b))"
proof -
  note sp = apply_rewrite_spec [OF assms(1,2,4)]
  from sp assms(3)
  have em: "list_all2 (emitted st st') (body (blocks st b)) (body (blocks st' nb))"
    by blast
  have ext: "extends nb st st'" using sp by blast
  have "body (blocks st' nb) ! k = body (blocks st b) ! k
        \<and> insts st' (body (blocks st b) ! k) = insts st (body (blocks st b) ! k)"
    if k: "k < length (body (blocks st b))" and u: "unmatched st (body (blocks st b) ! k)"
    for k
  proof -
    have "emitted st st' (body (blocks st b) ! k) (body (blocks st' nb) ! k)"
      using em k by (rule list_all2_nthD)
    then have "body (blocks st' nb) ! k = body (blocks st b) ! k"
      using u by (simp add: emitted_unmatched)
    moreover have "body (blocks st b) ! k < next_ref st"
      using assms(3) k by simp
    then have "insts st' (body (blocks st b) ! k) = insts st (body (blocks st b) ! k)"
      using ext by (simp add: extends_def)
    ultimately show ?thesis by simp
  qed
  moreover have "filter (\<lambda>n. n < next_ref st) (body (blocks st' nb))
                   = filter (unmatched st) (body (blocks st b))"
    using em assms(3) by (rule emitted_unmatched_filter)
  ultimately show ?thesis by blast
qed

text \<open>
  C7: after a successful \<open>match\<close>, for an instruction of the block with a recorded pair
  of type and arguments, \<open>apply\<close> puts at its position a static instruction of the
  same variant (a static raise for a raise, a static try-raise for a try-protected
  raise), with the recorded pair and the location of the original.
\<close>

theorem apply_static_same_variant:
  assumes "b < next_ref st" and "\<forall>r\<in>set (body (blocks st b)). r < next_ref st"
    and "match infer b st = (Inr ok, st1)"
    and "apply_rewrite st1 = Inr (nb, st2)"
    and "k < length (body (blocks st b))"
    and "map_of (self_raises st1) (body (blocks st b) ! k) = Some (t, a)
         \<or> map_of (self_tryraises st1) (body (blocks st b) ! k) = Some (t, a)"
  shows "case insts st (body (blocks st b) ! k) of
           Raise exc l \<Rightarrow>
             map_of (self_raises st1) (body (blocks st b) ! k) = Some (t, a)
             \<and> insts st2 (body (blocks st2 nb) ! k) = StaticRaise t a l
         | TryRaise exc l \<Rightarrow>
             map_of (self_tryraises st1) (body (blocks st b) ! k) = Some (t, a)
             \<and> insts st2 (body (blocks st2 nb) ! k) = StaticTryRaise t a l
         | _ \<Rightarrow> False"
proof -
  define r where "r = body (blocks st b) ! k"
  note ms = match_state [OF assms(3)]
  have wf1: "\<forall>r\<in>set (body (blocks st1 b)). r < next_ref st1" using ms assms(2) by simp
  have "self_block st1 = Some b" and "b < next_ref st1" using ms assms(1) by simp_all
  from apply_rewrite_spec [OF this assms(4)] wf1
  have "list_all2 (emitted st1 st2) (body (blocks st1 b)) (body (blocks st2 nb))" by blast
  moreover have "k < length (body (blocks st1 b))" using ms assms(5) by simp
  ultimately have "emitted st1 st2 (body (blocks st1 b) ! k) (body (blocks st2 nb) ! k)"
    by (rule list_all2_nthD)
  then have em: "emitted st1 st2 r (body (blocks st2 nb) ! k)" using ms by (simp add: r_def)
  have rin: "r \<in> set (body (blocks st b))" using assms(5) by (simp add: r_def)
  have re: "map_of (self_raises st1) r = raise_entry infer (insts st r)"
    using match_entries(1) [OF assms(3), of r] rin by simp
  have te: "map_of (self_tryraises st1) r = tryraise_entry infer (insts st r)"
    using match_entries(2) [OF assms(3), of r] rin by simp
  from assms(6) have "map_of (self_raises st1) r = Some (t, a)
                      \<or> map_of (self_tryraises st1) r = Some (t, a)"
    by (simp add: r_def)
  then have "case insts st r of
           Raise exc l \<Rightarrow>
             map_of (self_raises st1) r = Some (t, a)
             \<and> insts st2 (body (blocks st2 nb) ! k) = StaticRaise t a l
         | TryRaise exc l \<Rightarrow>
             map_of (self_tryraises st1) r = Some (t, a)
             \<and> insts st2 (body (blocks st2 nb) ! k) = StaticTryRaise t a l
         | _ \<Rightarrow> False"
  proof
    assume m: "map_of (self_raises st1) r = Some (t, a)"
    then obtain exc l where i: "insts st r = Raise exc l"
      using re by (auto simp: raise_entry_Some)
    have "insts st2 (body (blocks st2 nb) ! k) = StaticRaise t a l"
      using em i ms by (simp add: emitted_raises [OF m])
    then show ?thesis using m i by simp
  next
    assume m: "map_of (self_tryraises st1) r = Some (t, a)"
    then obtain exc l where i: "insts st r = TryRaise exc l"
      using te by (auto simp: tryraise_entry_Some)
    then have n: "map_of (self_raises st1) r = None"
      using re by (simp add: raise_entry_def)
    have "insts st2 (body (blocks st2 nb) ! k) = StaticTryRaise t a l"
      using em i ms by (simp add: emitted_tryraises [OF n m])
    then show ?thesis using m i by simp
  qed
  then show ?thesis unfolding r_def .
qed

text \<open>
  C4: for a raise-like instruction without operand, the step of \<open>match\<close> records the
  pair \<open>(None, None)\<close> whatever the oracle is (the oracle \<open>f\<close> below is arbitrary, so
  also one that fails on every operand); after a successful \<open>match\<close> the dictionary of
  its variant holds that pair, and \<open>apply\<close> puts at its position the static
  instruction of the same variant with type \<open>None\<close>, arguments \<open>None\<close> and the
  location of the original.
\<close>

theorem reraise_round_trip:
  assumes "b < next_ref st" and "\<forall>r\<in>set (body (blocks st b)). r < next_ref st"
    and "match infer b st = (Inr ok, st1)"
    and "apply_rewrite st1 = Inr (nb, st2)"
    and "k < length (body (blocks st b))"
  shows "(insts st (body (blocks st b) ! k) = Raise None l \<longrightarrow>
            match_step f (body (blocks st b) ! k) st
              = Inr (st\<lparr>self_raises :=
                        AList.update (body (blocks st b) ! k) (PyNone, PyNone) (self_raises st)\<rparr>)
            \<and> map_of (self_raises st1) (body (blocks st b) ! k) = Some (PyNone, PyNone)
            \<and> insts st2 (body (blocks st2 nb) ! k) = StaticRaise PyNone PyNone l)
       \<and> (insts st (body (blocks st b) ! k) = TryRaise None l \<longrightarrow>
            match_step f (body (blocks st b) ! k) st
              = Inr (st\<lparr>self_tryraises :=
                        AList.update (body (blocks st b) ! k) (PyNone, PyNone) (self_tryraises st)\<rparr>)
            \<and> map_of (self_tryraises st1) (body (blocks st b) ! k) = Some (PyNone, PyNone)
            \<and> insts st2 (body (blocks st2 nb) ! k) = StaticTryRaise PyNone PyNone l)"
proof -
  define r where "r = body (blocks st b) ! k"
  note ms = match_state [OF assms(3)]
  have wf1: "\<forall>r\<in>set (body (blocks st1 b)). r < next_ref st1" using ms assms(2) by simp
  have "self_block st1 = Some b" and "b < next_ref st1" using ms assms(1) by simp_all
  from apply_rewrite_spec [OF this assms(4)] wf1
  have "list_all2 (emitted st1 st2) (body (blocks st1 b)) (body (blocks st2 nb))" by blast
  moreover have "k < length (body (blocks st1 b))" using ms assms(5) by simp
  ultimately have "emitted st1 st2 (body (blocks st1 b) ! k) (body (blocks st2 nb) ! k)"
    by (rule list_all2_nthD)
  then have em: "emitted st1 st2 r (body (blocks st2 nb) ! k)" using ms by (simp add: r_def)
  have rin: "r \<in> set (body (blocks st b))" using assms(5) by (simp add: r_def)
  have re: "map_of (self_raises st1) r = raise_entry infer (insts st r)"
    using match_entries(1) [OF assms(3), of r] rin by simp
  have te: "map_of (self_tryraises st1) r = tryraise_entry infer (insts st r)"
    using match_entries(2) [OF assms(3), of r] rin by simp
  have A: "match_step f r st
             = Inr (st\<lparr>self_raises := AList.update r (PyNone, PyNone) (self_raises st)\<rparr>)
           \<and> map_of (self_raises st1) r = Some (PyNone, PyNone)
           \<and> insts st2 (body (blocks st2 nb) ! k) = StaticRaise PyNone PyNone l"
    if i: "insts st r = Raise None l"
  proof -
    have s: "match_step f r st
               = Inr (st\<lparr>self_raises := AList.update r (PyNone, PyNone) (self_raises st)\<rparr>)"
      using i by (simp add: match_step_def infer_exc_def)
    have m: "map_of (self_raises st1) r = Some (PyNone, PyNone)"
      using re i by (simp add: raise_entry_def infer_exc_def)
    have "insts st2 (body (blocks st2 nb) ! k) = StaticRaise PyNone PyNone l"
      using em i ms by (simp add: emitted_raises [OF m])
    with s m show ?thesis by simp
  qed
  have B: "match_step f r st
             = Inr (st\<lparr>self_tryraises := AList.update r (PyNone, PyNone) (self_tryraises st)\<rparr>)
           \<and> map_of (self_tryraises st1) r = Some (PyNone, PyNone)
           \<and> insts st2 (body (blocks st2 nb) ! k) = StaticTryRaise PyNone PyNone l"
    if i: "insts st r = TryRaise None l"
  proof -
    have s: "match_step f r st
               = Inr (st\<lparr>self_tryraises := AList.update r (PyNone, PyNone) (self_tryraises st)\<rparr>)"
      using i by (simp add: match_step_def infer_exc_def)
    have m: "map_of (self_tryraises st1) r = Some (PyNone, PyNone)"
      using te i by (simp add: tryraise_entry_def infer_exc_def)
    have n: "map_of (self_raises st1) r = None"
      using re i by (simp add: raise_entry_def)
    have "insts st2 (body (blocks st2 nb) ! k) = StaticTryRaise PyNone PyNone l"
      using em i ms by (simp add: emitted_tryraises [OF n m])
    with s m show ?thesis by simp
  qed
  from A B show ?thesis unfolding r_def by blast
qed

text \<open>
  C6: when \<open>match\<close> returns, its answer is true exactly when the two dictionaries
  together have at least one entry, which is exactly when the block has a raise-like
  instruction; on a block without raise-like instruction \<open>match\<close> returns false.
\<close>

theorem match_applicable:
  "(match infer b st = (Inr ok, st1) \<longrightarrow>
      ok = (0 < card (dom (map_of (self_raises st1)))
                + card (dom (map_of (self_tryraises st1))))
      \<and> ok = (\<exists>r\<in>set (body (blocks st b)). is_raise_like (insts st r)))
   \<and> ((\<forall>r\<in>set (body (blocks st b)). \<not> is_raise_like (insts st r)) \<longrightarrow>
        fst (match infer b st) = Inr False)"
proof -
  have A: "ok = (0 < card (dom (map_of (self_raises st1)))
                    + card (dom (map_of (self_tryraises st1))))
           \<and> ok = (\<exists>r\<in>set (body (blocks st b)). is_raise_like (insts st r))"
    if m: "match infer b st = (Inr ok, st1)"
  proof -
    from match_distinct [OF m]
    have c: "card (dom (map_of (self_raises st1))) = length (self_raises st1)"
      "card (dom (map_of (self_tryraises st1))) = length (self_tryraises st1)"
      by (simp_all add: card_dom_map_of)
    have ok: "ok = (0 < length (self_raises st1) + length (self_tryraises st1))"
      using match_unfold [OF m] by simp
    have "ok = (\<exists>r\<in>set (body (blocks st b)). is_raise_like (insts st r))"
    proof (cases "\<exists>r\<in>set (body (blocks st b)). is_raise_like (insts st r)")
      case True
      then obtain r where r: "r \<in> set (body (blocks st b))" "is_raise_like (insts st r)"
        by blast
      from match_entries(3) [OF m r]
      have "map_of (self_raises st1) r \<noteq> None \<or> map_of (self_tryraises st1) r \<noteq> None"
        using match_entries(1) [OF m, of r] match_entries(2) [OF m, of r] r(1) by simp
      then have "self_raises st1 \<noteq> [] \<or> self_tryraises st1 \<noteq> []" by auto
      then show ?thesis using ok True by auto
    next
      case False
      then have "find_insts st b = []" by (auto simp: find_insts_def filter_empty_conv)
      then have "self_raises st1 = [] \<and> self_tryraises st1 = []"
        using match_unfold [OF m] by auto
      then show ?thesis using ok False by simp
    qed
    then show ?thesis using ok c by simp
  qed
  have B: "fst (match infer b st) = Inr False"
    if n: "\<forall>r\<in>set (body (blocks st b)). \<not> is_raise_like (insts st r)"
  proof -
    have "find_insts (st\<lparr>self_raises := [], self_tryraises := [], self_block := Some b\<rparr>) b = []"
      using n by (auto simp: find_insts_def filter_empty_conv)
    then show ?thesis by (simp add: match_def)
  qed
  from A B show ?thesis by blast
qed

text \<open>
  C8: \<open>match\<close> changes no block and no instruction of the store, whether it returns or
  fails; \<open>apply\<close> returns a block object that did not exist before and changes neither
  the original block nor any other block or instruction that existed before.
\<close>

theorem original_block_untouched:
  "blocks (snd (match infer b st)) = blocks st
   \<and> insts (snd (match infer b st)) = insts st
   \<and> next_ref (snd (match infer b st)) = next_ref st
   \<and> (self_block st = Some b0 \<and> b0 < next_ref st \<and> apply_rewrite st = Inr (nb, st') \<longrightarrow>
        next_ref st \<le> nb \<and> nb \<noteq> b0
        \<and> body (blocks st' b0) = body (blocks st b0)
        \<and> (\<forall>c. c < next_ref st \<longrightarrow> blocks st' c = blocks st c)
        \<and> (\<forall>r. r < next_ref st \<longrightarrow> insts st' r = insts st r))"
proof -
  have "next_ref st \<le> nb \<and> nb \<noteq> b0
        \<and> body (blocks st' b0) = body (blocks st b0)
        \<and> (\<forall>c. c < next_ref st \<longrightarrow> blocks st' c = blocks st c)
        \<and> (\<forall>r. r < next_ref st \<longrightarrow> insts st' r = insts st r)"
    if h: "self_block st = Some b0" "b0 < next_ref st" "apply_rewrite st = Inr (nb, st')"
  proof -
    from apply_rewrite_spec [OF h]
    have nb: "nb = next_ref st" and ext: "extends nb st st'" by blast+
    show ?thesis using nb ext h(2) by (auto simp: extends_def)
  qed
  then show ?thesis using match_frame [of infer b st] by blast
qed

text \<open>
  C10: after a successful \<open>match\<close> on a block, \<open>apply\<close> returns a block with exactly as
  many instructions as the original block, and the two bodies correspond position by
  position: the output at a position is the input instruction itself when that is
  unmatched, and otherwise one static instruction created by \<open>apply\<close> for it. The
  created instructions are pairwise different objects, so nothing is dropped, duplicated
  or inserted.
\<close>

theorem apply_one_for_one:
  assumes "match infer b st = (Inr ok, st1)" and "b < next_ref st"
  shows "\<exists>nb st2. apply_rewrite st1 = Inr (nb, st2)
           \<and> length (body (blocks st2 nb)) = length (body (blocks st b))
           \<and> ((\<forall>r\<in>set (body (blocks st b)). r < next_ref st) \<longrightarrow>
                list_all2 (emitted st1 st2) (body (blocks st b)) (body (blocks st2 nb))
                \<and> distinct (filter (\<lambda>n. next_ref st \<le> n) (body (blocks st2 nb))))"
proof -
  note ms = match_state [OF assms(1)]
  have sb: "self_block st1 = Some b" and lt: "b < next_ref st1" using ms assms(2) by simp_all
  from apply_rewrite_unfold [OF sb lt] obtain nb st2
    where ap: "apply_rewrite st1 = Inr (nb, st2)" by blast
  note sp = apply_rewrite_spec [OF sb lt ap]
  from sp have "length (body (blocks st2 nb)) = length (body (blocks st1 b))" by blast
  then have len: "length (body (blocks st2 nb)) = length (body (blocks st b))"
    using ms by simp
  have pos: "list_all2 (emitted st1 st2) (body (blocks st b)) (body (blocks st2 nb))
             \<and> distinct (filter (\<lambda>n. next_ref st \<le> n) (body (blocks st2 nb)))"
    if wf: "\<forall>r\<in>set (body (blocks st b)). r < next_ref st"
  proof -
    have wf1: "\<forall>r\<in>set (body (blocks st1 b)). r < next_ref st1" using wf ms by simp
    have "list_all2 (emitted st1 st2) (body (blocks st1 b)) (body (blocks st2 nb))"
      using sp wf1 by blast
    moreover have "distinct (filter (\<lambda>n. next_ref st1 \<le> n) (body (blocks st2 nb)))"
      using sb lt wf1 ap by (rule apply_rewrite_fresh_distinct)
    ultimately show ?thesis using ms by simp
  qed
  from ap len pos show ?thesis by blast
qed

section \<open>The running example, evaluated\<close>

lemma ex_match: "match ex_infer 5 ex_state = (Inr True, ex_matched)"
  by (simp add: match_def ex_state_def ex_matched_def ex_infer_def find_insts_def
      match_step_def infer_exc_def break_constant_def getitem_def py_tuple_def
      is_exception_type_def ValueError_class_def Exception_class_def)

lemma ex_apply: "apply_rewrite ex_matched = Inr (8, ex_applied)"
  by (simp add: apply_rewrite_def ex_applied_def ex_matched_def ex_state_def Block_copy_def
      Block_clear_def Block_append_def apply_step_def new_inst_def)

lemma ex_match6: "match ex_fail 6 ex_state = (Inr True, ex_matched6)"
  by (simp add: match_def ex_state_def ex_matched6_def find_insts_def
      match_step_def infer_exc_def)

lemma ex_apply6: "apply_rewrite ex_matched6 = Inr (8, ex_applied6)"
  by (simp add: apply_rewrite_def ex_applied6_def ex_matched6_def ex_state_def Block_copy_def
      Block_clear_def Block_append_def apply_step_def new_inst_def)

lemma ex_match_fail: "fst (match ex_fail 5 ex_state) = Inl (ConstantInferenceError ''x'')"
  by (simp add: match_def ex_state_def ex_fail_def find_insts_def
      match_step_def infer_exc_def)

lemma ex_state_wf:
  "5 < next_ref ex_state" "6 < next_ref ex_state"
  "\<forall>r\<in>set (body (blocks ex_state 5)). r < next_ref ex_state"
  "\<forall>r\<in>set (body (blocks ex_state 6)). r < next_ref ex_state"
  by (simp_all add: ex_state_def)

lemma ex_matched_wf:
  "self_block ex_matched = Some 5" "5 < next_ref ex_matched"
  "\<forall>r\<in>set (body (blocks ex_matched 5)). r < next_ref ex_matched"
  by (simp_all add: ex_matched_def ex_state_def)

section \<open>The theorems on the running example\<close>

theorem apply_keeps_unmatched_witness:
  "self_block ex_matched = Some 5
   \<and> 5 < next_ref ex_matched
   \<and> apply_rewrite ex_matched = Inr (8, ex_applied)
   \<and> unmatched ex_matched (body (blocks ex_matched 5) ! 0)
   \<and> body (blocks ex_applied 8) ! 0 = body (blocks ex_matched 5) ! 0
   \<and> insts ex_applied (body (blocks ex_matched 5) ! 0)
       = insts ex_matched (body (blocks ex_matched 5) ! 0)
   \<and> filter (\<lambda>n. n < next_ref ex_matched) (body (blocks ex_applied 8))
       = filter (unmatched ex_matched) (body (blocks ex_matched 5))
   \<and> filter (unmatched ex_matched) (body (blocks ex_matched 5)) = [0]"
proof -
  note t = apply_keeps_unmatched [OF ex_matched_wf ex_apply]
  have len: "0 < length (body (blocks ex_matched 5))"
    by (simp add: ex_matched_def ex_state_def)
  have u: "unmatched ex_matched (body (blocks ex_matched 5) ! 0)"
    by (simp add: unmatched_def in_raises_def in_tryraises_def ex_matched_def ex_state_def)
  have f: "filter (unmatched ex_matched) (body (blocks ex_matched 5)) = [0]"
    by (simp add: unmatched_def in_raises_def in_tryraises_def ex_matched_def ex_state_def)
  note c = t [THEN conjunct1, rule_format, OF len u]
  note d = t [THEN conjunct2]
  show ?thesis
    by (intro conjI) (rule ex_matched_wf(1) ex_matched_wf(2) ex_apply u c [THEN conjunct1]
        c [THEN conjunct2] d f)+
qed

theorem apply_static_same_variant_witness:
  "match ex_infer 5 ex_state = (Inr True, ex_matched)
   \<and> apply_rewrite ex_matched = Inr (8, ex_applied)
   \<and> insts ex_state (body (blocks ex_state 5) ! 2) = Raise (Some ''x'') (Loc ''f.py'' 3)
   \<and> map_of (self_raises ex_matched) (body (blocks ex_state 5) ! 2)
       = Some (PyType ValueError_class, PyTuple [PyStr ''bad''])
   \<and> insts ex_applied (body (blocks ex_applied 8) ! 2)
       = StaticRaise (PyType ValueError_class) (PyTuple [PyStr ''bad'']) (Loc ''f.py'' 3)
   \<and> insts ex_state (body (blocks ex_state 5) ! 1) = TryRaise None (Loc ''f.py'' 2)
   \<and> map_of (self_tryraises ex_matched) (body (blocks ex_state 5) ! 1) = Some (PyNone, PyNone)
   \<and> insts ex_applied (body (blocks ex_applied 8) ! 1)
       = StaticTryRaise PyNone PyNone (Loc ''f.py'' 2)"
proof -
  have i2: "insts ex_state (body (blocks ex_state 5) ! 2) = Raise (Some ''x'') (Loc ''f.py'' 3)"
    and i1: "insts ex_state (body (blocks ex_state 5) ! 1) = TryRaise None (Loc ''f.py'' 2)"
    and l2: "2 < length (body (blocks ex_state 5))"
    and l1: "1 < length (body (blocks ex_state 5))"
    by (simp_all add: ex_state_def)
  have m2: "map_of (self_raises ex_matched) (body (blocks ex_state 5) ! 2)
              = Some (PyType ValueError_class, PyTuple [PyStr ''bad''])
            \<or> map_of (self_tryraises ex_matched) (body (blocks ex_state 5) ! 2)
              = Some (PyType ValueError_class, PyTuple [PyStr ''bad''])"
    by (simp add: ex_matched_def ex_state_def)
  have m1: "map_of (self_raises ex_matched) (body (blocks ex_state 5) ! 1)
              = Some (PyNone, PyNone)
            \<or> map_of (self_tryraises ex_matched) (body (blocks ex_state 5) ! 1)
              = Some (PyNone, PyNone)"
    by (simp add: ex_matched_def ex_state_def)
  note c2 = apply_static_same_variant [OF ex_state_wf(1,3) ex_match ex_apply l2 m2,
      unfolded i2 inst.case]
  note c1 = apply_static_same_variant [OF ex_state_wf(1,3) ex_match ex_apply l1 m1,
      unfolded i1 inst.case]
  show ?thesis
    by (intro conjI) (rule ex_match ex_apply i2 i1 c2 [THEN conjunct1] c2 [THEN conjunct2]
        c1 [THEN conjunct1] c1 [THEN conjunct2])+
qed

theorem reraise_round_trip_witness:
  "match ex_fail 6 ex_state = (Inr True, ex_matched6)
   \<and> apply_rewrite ex_matched6 = Inr (8, ex_applied6)
   \<and> insts ex_state (body (blocks ex_state 6) ! 0) = Raise None (Loc ''f.py'' 9)
   \<and> (match_step ex_fail (body (blocks ex_state 6) ! 0) ex_state
        = Inr (ex_state\<lparr>self_raises :=
                 AList.update (body (blocks ex_state 6) ! 0) (PyNone, PyNone)
                   (self_raises ex_state)\<rparr>)
      \<and> map_of (self_raises ex_matched6) (body (blocks ex_state 6) ! 0) = Some (PyNone, PyNone)
      \<and> insts ex_applied6 (body (blocks ex_applied6 8) ! 0)
          = StaticRaise PyNone PyNone (Loc ''f.py'' 9))
   \<and> insts ex_state (body (blocks ex_state 5) ! 1) = TryRaise None (Loc ''f.py'' 2)
   \<and> (match_step ex_fail (body (blocks ex_state 5) ! 1) ex_state
        = Inr (ex_state\<lparr>self_tryraises :=
                 AList.update (body (blocks ex_state 5) ! 1) (PyNone, PyNone)
                   (self_tryraises ex_state)\<rparr>)
      \<and> map_of (self_tryraises ex_matched) (body (blocks ex_state 5) ! 1)
          = Some (PyNone, PyNone)
      \<and> insts ex_applied (body (blocks ex_applied 8) ! 1)
          = StaticTryRaise PyNone PyNone (Loc ''f.py'' 2))"
proof -
  have i0: "insts ex_state (body (blocks ex_state 6) ! 0) = Raise None (Loc ''f.py'' 9)"
    and i1: "insts ex_state (body (blocks ex_state 5) ! 1) = TryRaise None (Loc ''f.py'' 2)"
    and l0: "0 < length (body (blocks ex_state 6))"
    and l1: "1 < length (body (blocks ex_state 5))"
    by (simp_all add: ex_state_def)
  note a = reraise_round_trip [OF ex_state_wf(2,4) ex_match6 ex_apply6 l0,
      of "Loc ''f.py'' 9" ex_fail, THEN conjunct1, THEN mp, OF i0]
  note b = reraise_round_trip [OF ex_state_wf(1,3) ex_match ex_apply l1,
      of "Loc ''f.py'' 2" ex_fail, THEN conjunct2, THEN mp, OF i1]
  show ?thesis
    by (intro conjI)
      (rule ex_match6 ex_apply6 i0 i1 a [THEN conjunct1] a [THEN conjunct2, THEN conjunct1]
        a [THEN conjunct2, THEN conjunct2] b [THEN conjunct1]
        b [THEN conjunct2, THEN conjunct1] b [THEN conjunct2, THEN conjunct2])+
qed

theorem match_applicable_witness:
  "match ex_infer 5 ex_state = (Inr True, ex_matched)
   \<and> True = (0 < card (dom (map_of (self_raises ex_matched)))
                 + card (dom (map_of (self_tryraises ex_matched))))
   \<and> \<not> is_raise_like (insts ex_state 4)
   \<and> body (blocks ex_state 7) = [4]
   \<and> fst (match ex_infer 7 ex_state) = Inr False"
proof -
  have n: "\<not> is_raise_like (insts ex_state 4)" and b: "body (blocks ex_state 7) = [4]"
    by (simp_all add: ex_state_def)
  then have h: "\<forall>r\<in>set (body (blocks ex_state 7)). \<not> is_raise_like (insts ex_state r)"
    by simp
  note a = match_applicable [of ex_infer 5 ex_state True ex_matched,
      THEN conjunct1, THEN mp, OF ex_match, THEN conjunct1]
  note c = match_applicable [of ex_infer 7 ex_state True ex_matched,
      THEN conjunct2, THEN mp, OF h]
  show ?thesis
    by (intro conjI) (rule ex_match n b a c)+
qed

theorem original_block_untouched_witness:
  "fst (match ex_fail 5 ex_state) = Inl (ConstantInferenceError ''x'')
   \<and> blocks (snd (match ex_fail 5 ex_state)) = blocks ex_state
   \<and> insts (snd (match ex_fail 5 ex_state)) = insts ex_state
   \<and> self_block ex_matched = Some 5
   \<and> 5 < next_ref ex_matched
   \<and> apply_rewrite ex_matched = Inr (8, ex_applied)
   \<and> body (blocks ex_applied 5) = body (blocks ex_matched 5)
   \<and> blocks ex_applied 6 = blocks ex_matched 6
   \<and> insts ex_applied 2 = insts ex_matched 2"
proof -
  note a = original_block_untouched [of ex_fail 5 ex_state 5 8 ex_applied]
  note b = original_block_untouched [of ex_fail 5 ex_matched 5 8 ex_applied,
      THEN conjunct2, THEN conjunct2, THEN conjunct2, THEN mp,
      OF conjI [OF ex_matched_wf(1) conjI [OF ex_matched_wf(2) ex_apply]]]
  have lt: "(6::nat) < next_ref ex_matched" "(2::nat) < next_ref ex_matched"
    by (simp_all add: ex_matched_def ex_state_def)
  note b3 = b [THEN conjunct2, THEN conjunct2]
  show ?thesis
    by (intro conjI)
      (rule ex_match_fail a [THEN conjunct1] a [THEN conjunct2, THEN conjunct1]
        ex_matched_wf(1) ex_matched_wf(2) ex_apply b3 [THEN conjunct1]
        b3 [THEN conjunct2, THEN conjunct1, rule_format, OF lt(1)]
        b3 [THEN conjunct2, THEN conjunct2, rule_format, OF lt(2)])+
qed

theorem apply_one_for_one_witness:
  "match ex_infer 5 ex_state = (Inr True, ex_matched)
   \<and> 5 < next_ref ex_state
   \<and> apply_rewrite ex_matched = Inr (8, ex_applied)
   \<and> length (body (blocks ex_applied 8)) = length (body (blocks ex_state 5))
   \<and> list_all2 (emitted ex_matched ex_applied)
        (body (blocks ex_state 5)) (body (blocks ex_applied 8))
   \<and> distinct (filter (\<lambda>n. next_ref ex_state \<le> n) (body (blocks ex_applied 8)))
   \<and> body (blocks ex_state 5) = [0, 1, 2]
   \<and> body (blocks ex_applied 8) = [0, 9, 10]"
proof -
  from apply_one_for_one [OF ex_match ex_state_wf(1)] obtain nb st2
    where ap: "apply_rewrite ex_matched = Inr (nb, st2)"
      and len: "length (body (blocks st2 nb)) = length (body (blocks ex_state 5))"
      and pos: "(\<forall>r\<in>set (body (blocks ex_state 5)). r < next_ref ex_state) \<longrightarrow>
                list_all2 (emitted ex_matched st2) (body (blocks ex_state 5))
                  (body (blocks st2 nb))
                \<and> distinct (filter (\<lambda>n. next_ref ex_state \<le> n) (body (blocks st2 nb)))"
    by blast
  from ap ex_apply have eq: "nb = 8" "st2 = ex_applied" by simp_all
  note c = len [unfolded eq]
  note d = pos [unfolded eq, THEN mp, OF ex_state_wf(3)]
  have l: "body (blocks ex_state 5) = [0, 1, 2]" by (simp add: ex_state_def)
  have o: "body (blocks ex_applied 8) = [0, 9, 10]" by (simp add: ex_applied_def)
  show ?thesis
    by (intro conjI)
      (rule ex_match ex_state_wf(1) ex_apply c d [THEN conjunct1] d [THEN conjunct2] l o)+
qed

end
